theory Spec2Isabelle
  imports Complex_Main "HOL-Library.Word"
begin

section \<open>Procedural terrain demo: heightmap synthesis, normal map, bloom blur, sun animation\<close>

text \<open>
  The program is C++ over \<open>float\<close>, \<open>int\<close> and \<open>unsigned char\<close>. An \<open>unsigned char\<close>
  is an \<open>8 word\<close>. The \<open>int\<close> sizes and loop counters are \<open>nat\<close> (the results below are
  about sizes of at least 1, where all index products are taken without wrap-around).

  A \<open>float\<close> is modelled in two ways. In the heightmap synthesis, where the stored byte
  depends on the rounding of every operation, a \<open>float\<close> is a value of type \<open>f32\<close>:
  IEEE 754 binary32 with round-to-nearest, ties to even, gradual underflow, infinities and
  NaN. Everywhere else a \<open>float\<close> is a \<open>real\<close> and every operation is taken exact.
\<close>

subsection \<open>Vectors of three floats (glm::vec3)\<close>

record vec3 =
  vx :: real
  vy :: real
  vz :: real

definition mk_vec3 :: "real \<Rightarrow> real \<Rightarrow> real \<Rightarrow> vec3" where
  "mk_vec3 a b c = \<lparr>vx = a, vy = b, vz = c\<rparr>"

definition dot :: "vec3 \<Rightarrow> vec3 \<Rightarrow> real" where
  "dot a b = vx a * vx b + vy a * vy b + vz a * vz b"

definition vlength :: "vec3 \<Rightarrow> real" where
  "vlength v = sqrt (dot v v)"

definition vscale :: "vec3 \<Rightarrow> real \<Rightarrow> vec3" where
  \<comment> \<open>\<open>v * s\<close>\<close>
  "vscale v s = mk_vec3 (vx v * s) (vy v * s) (vz v * s)"


definition normalize :: "vec3 \<Rightarrow> vec3" where
  \<comment> \<open>\<open>glm::normalize(v) = v * inversesqrt(dot(v, v))\<close>\<close>
  "normalize v = vscale v (1 / sqrt (dot v v))"

definition mix :: "real \<Rightarrow> real \<Rightarrow> real \<Rightarrow> real" where
  \<comment> \<open>\<open>glm::mix(x, y, a) = x * (1 - a) + y * a\<close>\<close>
  "mix a b t = a * (1 - t) + b * t"

definition mix3 :: "vec3 \<Rightarrow> vec3 \<Rightarrow> real \<Rightarrow> vec3" where
  "mix3 a b t = mk_vec3 (mix (vx a) (vx b) t) (mix (vy a) (vy b) t) (mix (vz a) (vz b) t)"

definition degrees :: "real \<Rightarrow> real" where
  \<comment> \<open>\<open>glm::degrees\<close>\<close>
  "degrees r = r * 180 / pi"

subsection \<open>Binary32 arithmetic\<close>

text \<open>
  \<open>round_f32\<close> rounds a real to the nearest binary32 value, with the exponent range
  unbounded upwards: the spacing of the binary32 values around \<open>x\<close> is \<open>ulp_f32 x\<close>, which
  is \<open>2 ^ (e - 23)\<close> for \<open>2 ^ e \<le> \<bar>x\<bar> < 2 ^ (e + 1)\<close> and \<open>2 ^ (-149)\<close> below \<open>2 ^ (-126)\<close>,
  and a tie goes to the even multiple. \<open>f32_of_real\<close> turns a rounded value of magnitude
  \<open>2 ^ 128\<close> or more into an infinity (\<open>Infinity True\<close> is the negative one). The sign of
  a zero is not modelled: the two zeros compare equal, and a division by zero takes the
  zero as positive.

  Every \<open>float\<close> operation of the source is one rounded operation of the model: a
  product and the sum that consumes it are rounded separately (no fused multiply-add), and
  no intermediate value is kept in a wider format.
\<close>

definition round_even :: "real \<Rightarrow> int" where
  "round_even y =
     (let f = \<lfloor>y\<rfloor>; d = y - of_int f
      in if d < 1 / 2 then f else if d > 1 / 2 then f + 1 else if even f then f else f + 1)"

definition exponent_f32 :: "real \<Rightarrow> int" where
  "exponent_f32 x = max \<lfloor>log 2 \<bar>x\<bar>\<rfloor> (- 126)"

definition ulp_f32 :: "real \<Rightarrow> real" where
  "ulp_f32 x = 2 powr of_int (exponent_f32 x - 23)"

definition round_f32 :: "real \<Rightarrow> real" where
  "round_f32 x = of_int (round_even (x / ulp_f32 x)) * ulp_f32 x"






subsection \<open>Fractional Brownian motion and the heightmap\<close>
















subsection \<open>Normal map\<close>




subsection \<open>Bloom blur: the ping-pong loop of the render loop\<close>

text \<open>
  The two ping-pong framebuffers and their colour textures are indexed by the boolean
  \<open>horizontal\<close> (\<open>false\<close> is index 0, \<open>true\<close> is index 1); \<open>pingpongColorbuffers i\<close> is
  the texture attached to \<open>pingpongFBO i\<close>. One iteration of the loop binds a framebuffer
  to write and a texture to read; the model records both in order.
\<close>

datatype texture = colorBuffer nat | downSampledTex | pingpongColorbuffers nat

datatype framebuffer = pingpongFBO nat

record blur_pass =
  written :: framebuffer
  sampled :: texture

record blur_state =
  horizontal :: bool
  first_iteration :: bool
  passes :: "blur_pass list"

definition index_of_bool :: "bool \<Rightarrow> nat" where
  "index_of_bool b = (if b then 1 else 0)"

definition blur_iteration :: "blur_state \<Rightarrow> blur_state" where
  "blur_iteration s =
     \<lparr>horizontal = \<not> horizontal s,
      first_iteration = False,
      passes = passes s @
        [\<lparr>written = pingpongFBO (index_of_bool (horizontal s)),
          sampled = (if first_iteration s then downSampledTex
                     else pingpongColorbuffers (index_of_bool (\<not> horizontal s)))\<rparr>]\<rparr>"

primrec blur_loop :: "nat \<Rightarrow> blur_state \<Rightarrow> blur_state" where
  "blur_loop 0 s = s"
| "blur_loop (Suc n) s = blur_loop n (blur_iteration s)"

definition blur_init :: blur_state where
  "blur_init = \<lparr>horizontal = True, first_iteration = True, passes = []\<rparr>"

definition bloom_blur :: "nat \<Rightarrow> blur_state" where
  \<comment> \<open>the blur stage with \<open>amount\<close> iterations\<close>
  "bloom_blur amount = blur_loop amount blur_init"

definition gaussianBlurIntensity :: nat where
  "gaussianBlurIntensity = 100"

definition composite_bloom_input :: "nat \<Rightarrow> texture" where
  \<comment> \<open>the texture bound to unit 1 (\<open>bloomBlur\<close>) of the post-process pass after the loop\<close>
  "composite_bloom_input amount =
     pingpongColorbuffers (index_of_bool (\<not> horizontal (bloom_blur amount)))"

definition attached_texture :: "framebuffer \<Rightarrow> texture" where
  "attached_texture f = (case f of pingpongFBO i \<Rightarrow> pingpongColorbuffers i)"

subsection \<open>The sun (light controller)\<close>

definition bloomFactor :: real where "bloomFactor = 5"
definition WHITE :: vec3 where "WHITE = vscale (mk_vec3 1 (85 / 100) (55 / 100)) bloomFactor"
definition ORANGE :: vec3 where "ORANGE = vscale (mk_vec3 1 (5 / 10) (5 / 100)) bloomFactor"
definition maxExposure :: real where "maxExposure = 75 / 100"
definition minExposure :: real where "minExposure = 5 / 100"
definition sunRadius :: real where "sunRadius = 17 / 10"
definition sunDesiredSpeed :: real where "sunDesiredSpeed = 4 / 10"
definition idleTime :: real where "idleTime = 1"

record sun_state =
  lightPos :: vec3
  lightDiffuse :: vec3
  exposure :: real
  sunAngle :: real
  sunVel :: real
  timer :: real
  bReverseSun :: bool
  bWaiting :: bool

definition sun_init :: sun_state where
  \<comment> \<open>the initial values of the globals\<close>
  "sun_init =
     \<lparr>lightPos = mk_vec3 0 (1 / 10) 0,
      lightDiffuse = WHITE,
      exposure = maxExposure,
      sunAngle = 99999 / 100,
      sunVel = 0,
      timer = 0,
      bReverseSun = False,
      bWaiting = False\<rparr>"

definition EaseInOutSine :: "real \<Rightarrow> real" where
  "EaseInOutSine x = - (cos (pi * x) - 1) / 2"

definition angle_to_reference :: "vec3 \<Rightarrow> real" where
  \<comment> \<open>the angle, in degrees, between the light direction and the direction \<open>(1, 0, 1)\<close>\<close>
  "angle_to_reference p = degrees (arccos (dot (normalize p) (normalize (mk_vec3 1 0 1))))"

definition sun_waiting :: "real \<Rightarrow> sun_state \<Rightarrow> sun_state" where
  \<comment> \<open>the branch \<open>if (bWaiting)\<close>\<close>
  "sun_waiting deltaTime s =
     (let s1 = s\<lparr>timer := timer s + deltaTime\<rparr>
      in if timer s1 \<ge> idleTime then s1\<lparr>bWaiting := False, timer := 0\<rparr> else s1)"

definition sun_moving :: "real \<Rightarrow> sun_state \<Rightarrow> sun_state" where
  \<comment> \<open>the branch "Sun is in motion"\<close>
  "sun_moving deltaTime s =
     (let s1 = s\<lparr>sunAngle := angle_to_reference (lightPos s)\<rparr>;
          dir = (if bReverseSun s1 then - 1 else 1);
          targetSpeed = sunDesiredSpeed * dir;
          s2 = (if (sunAngle s1 < 899 / 10 \<and> \<not> bReverseSun s1)
                   \<or> (sunAngle s1 > 901 / 10 \<and> bReverseSun s1)
                then s1\<lparr>sunVel := sunVel s1
                           + mix (deltaTime * sunDesiredSpeed * dir) 0 (EaseInOutSine deltaTime * 120),
                        lightDiffuse := mix3 (lightDiffuse s1) ORANGE (EaseInOutSine deltaTime * 10),
                        exposure := mix (exposure s1) minExposure (EaseInOutSine deltaTime * 10)\<rparr>
                else s1\<lparr>sunVel := sunVel s1
                           + mix (deltaTime * sunDesiredSpeed * dir) targetSpeed (EaseInOutSine deltaTime * 3),
                        lightDiffuse := mix3 (lightDiffuse s1) WHITE (EaseInOutSine deltaTime * 10),
                        exposure := mix (exposure s1) maxExposure (EaseInOutSine deltaTime * 10)\<rparr>)
      in s2\<lparr>lightPos := mk_vec3 (sunRadius * - cos (sunVel s2))
                                 (sunRadius * sin (sunVel s2))
                                 (sunRadius * - cos (sunVel s2))\<rparr>)"

definition horizon_check :: "sun_state \<Rightarrow> sun_state" where
  \<comment> \<open>"Check if sun is at either horizon"\<close>
  "horizon_check s =
     (if sunAngle s < 5 \<and> \<not> bReverseSun s then s\<lparr>bWaiting := True, bReverseSun := True\<rparr>
      else if sunAngle s > 175 \<and> bReverseSun s then s\<lparr>bWaiting := True, bReverseSun := False\<rparr>
      else s)"

definition AnimateSun :: "bool \<Rightarrow> real \<Rightarrow> sun_state \<Rightarrow> sun_state" where
  \<comment> \<open>One call of \<open>AnimateSun\<close>. The global \<open>deltaTime\<close> that the render loop sets before
      the call is the second argument. The compile-time constant \<open>bIsSunStationary\<close>
      (\<open>false\<close> in the program) is the first, so that the stationary configuration can be
      spoken about too. The uniform written to the sun shader is not part of the state.\<close>
  "AnimateSun bIsSunStationary deltaTime s =
     (if bIsSunStationary then s\<lparr>lightPos := mk_vec3 1 (75 / 100) 1\<rparr>
      else horizon_check (if bWaiting s then sun_waiting deltaTime s else sun_moving deltaTime s))"

definition run_frames :: "bool \<Rightarrow> real list \<Rightarrow> sun_state \<Rightarrow> sun_state" where
  \<comment> \<open>one update per frame, with the frames' elapsed times in order\<close>
  "run_frames bIsSunStationary deltaTimes s = fold (AnimateSun bIsSunStationary) deltaTimes s"

inductive reachable :: "bool \<Rightarrow> sun_state \<Rightarrow> bool" for bIsSunStationary where
  reachable_init: "reachable bIsSunStationary sun_init"
| reachable_step: "reachable bIsSunStationary s \<Longrightarrow>
     reachable bIsSunStationary (AnimateSun bIsSunStationary deltaTime s)"

code_pred reachable .

definition waiting_inv :: "sun_state \<Rightarrow> bool" where
  \<comment> \<open>while waiting, the stored angle is past a horizon threshold and the direction flag
      already points away from that horizon\<close>
  "waiting_inv s \<longleftrightarrow>
     (bWaiting s \<longrightarrow> (sunAngle s < 5 \<and> bReverseSun s) \<or> (sunAngle s > 175 \<and> \<not> bReverseSun s))"

subsection \<open>A noise primitive for concrete instances\<close>


section \<open>Row-major grid loops\<close>





section \<open>Binary32 rounding\<close>

lemma round_even_of_int [simp]: "round_even (of_int n) = n"
  by (simp add: round_even_def)

lemma round_even_bounds: "\<lfloor>y\<rfloor> \<le> round_even y" "round_even y \<le> \<lfloor>y\<rfloor> + 1"
  by (simp_all add: round_even_def Let_def)

lemma round_even_mono:
  assumes "a \<le> b"
  shows "round_even a \<le> round_even b"
proof (cases "\<lfloor>a\<rfloor> = \<lfloor>b\<rfloor>")
  case True
  have "a - of_int \<lfloor>a\<rfloor> \<le> b - of_int \<lfloor>b\<rfloor>" using assms True by simp
  then show ?thesis
    using True by (auto simp: round_even_def Let_def)
next
  case False
  have "\<lfloor>a\<rfloor> \<le> \<lfloor>b\<rfloor>" using assms by (rule floor_mono)
  then have "\<lfloor>a\<rfloor> + 1 \<le> \<lfloor>b\<rfloor>" using False by simp
  then show ?thesis
    using round_even_bounds(2) [of a] round_even_bounds(1) [of b] by linarith
qed

lemma round_even_minus: "round_even (- y) = - round_even y"
proof (cases "y \<in> \<int>")
  case True
  then obtain n where "y = of_int n" by (auto elim: Ints_cases)
  then show ?thesis
    using round_even_of_int [of "- n"] by simp
next
  case False
  then have ne: "y \<noteq> of_int \<lfloor>y\<rfloor>"
    by (metis Ints_of_int)
  then have fl: "\<lfloor>- y\<rfloor> = - \<lfloor>y\<rfloor> - 1"
    by (simp add: floor_minus ceiling_altdef)
  show ?thesis
    unfolding round_even_def Let_def fl
    using ne by (auto simp: algebra_simps)
qed

lemma round_even_le: "a \<le> of_int n \<Longrightarrow> round_even a \<le> n"
  using round_even_mono [of a "of_int n"] by simp

lemma round_even_ge: "of_int n \<le> a \<Longrightarrow> n \<le> round_even a"
  using round_even_mono [of "of_int n" a] by simp

lemma ulp_f32_pos [simp]: "0 < ulp_f32 x"
  by (simp add: ulp_f32_def)

lemma exponent_f32_minus [simp]: "exponent_f32 (- x) = exponent_f32 x"
  by (simp add: exponent_f32_def)

lemma ulp_f32_minus [simp]: "ulp_f32 (- x) = ulp_f32 x"
  by (simp add: ulp_f32_def)

lemma round_f32_minus: "round_f32 (- x) = - round_f32 x"
  by (simp add: round_f32_def round_even_minus)

lemma round_even_0 [simp]: "round_even 0 = 0"
  using round_even_of_int [of 0] by simp

lemma round_f32_0 [simp]: "round_f32 0 = 0"
  by (simp add: round_f32_def)

lemma round_f32_nonneg: "0 \<le> x \<Longrightarrow> 0 \<le> round_f32 x"
proof -
  assume "0 \<le> x"
  then have "of_int 0 \<le> x / ulp_f32 x" by (simp add: less_imp_le)
  then have "0 \<le> round_even (x / ulp_f32 x)" by (rule round_even_ge)
  then show ?thesis by (simp add: round_f32_def less_imp_le)
qed

lemma exponent_f32_ge: "- 126 \<le> exponent_f32 x"
  by (simp add: exponent_f32_def)

lemma exponent_f32_upper:
  assumes "x \<noteq> 0"
  shows "\<bar>x\<bar> < 2 powr (of_int (exponent_f32 x) + 1)"
proof -
  have "log 2 \<bar>x\<bar> < of_int \<lfloor>log 2 \<bar>x\<bar>\<rfloor> + 1" by linarith
  also have "\<dots> \<le> of_int (exponent_f32 x) + 1" by (simp add: exponent_f32_def)
  finally have "2 powr (log 2 \<bar>x\<bar>) < 2 powr (of_int (exponent_f32 x) + 1)"
    by (simp add: powr_less_mono)
  then show ?thesis using assms by simp
qed

lemma exponent_f32_lower:
  assumes "x \<noteq> 0" "- 126 < exponent_f32 x"
  shows "2 powr of_int (exponent_f32 x) \<le> \<bar>x\<bar>"
proof -
  have "exponent_f32 x = \<lfloor>log 2 \<bar>x\<bar>\<rfloor>" using assms(2) by (simp add: exponent_f32_def max_def split: if_splits)
  then have "of_int (exponent_f32 x) \<le> log 2 \<bar>x\<bar>" by simp
  then have "2 powr of_int (exponent_f32 x) \<le> 2 powr (log 2 \<bar>x\<bar>)"
    by (simp add: powr_mono)
  then show ?thesis using assms(1) by simp
qed

lemma exponent_f32_normal:
  assumes "- 126 \<le> e" "2 powr of_int e \<le> \<bar>x\<bar>" "\<bar>x\<bar> < 2 powr (of_int e + 1)"
  shows "exponent_f32 x = e"
proof -
  have pos: "0 < \<bar>x\<bar>" using assms(2) by (smt (verit) powr_gt_zero)
  have "\<lfloor>log 2 \<bar>x\<bar>\<rfloor> = e"
    using assms(2,3) pos by (simp add: floor_log_eq_powr_iff)
  then show ?thesis using assms(1) by (simp add: exponent_f32_def)
qed

lemma exponent_f32_subnormal:
  assumes "x \<noteq> 0" "\<bar>x\<bar> < 2 powr (- 125)"
  shows "exponent_f32 x = - 126"
proof -
  have "log 2 \<bar>x\<bar> < log 2 (2 powr (- 125))"
    using assms by (subst log_less_cancel_iff) simp_all
  then have "log 2 \<bar>x\<bar> < - 125" by simp
  then have "\<lfloor>log 2 \<bar>x\<bar>\<rfloor> < - 125" by linarith
  then show ?thesis by (simp add: exponent_f32_def)
qed


lemma ulp_scale: "(2::real) powr (of_int e + 1) = of_int (2 ^ 24) * 2 powr of_int (e - 23)"
proof -
  have "(2::real) powr (of_int e + 1) = 2 powr (24 + of_int (e - 23))"
    by (simp add: add.commute)
  also have "\<dots> = 2 powr 24 * 2 powr of_int (e - 23)" by (rule powr_add)
  finally show ?thesis by simp
qed

lemma ulp_scale': "(2::real) powr of_int e = of_int (2 ^ 23) * 2 powr of_int (e - 23)"
proof -
  have "(2::real) powr of_int e = 2 powr (23 + of_int (e - 23))" by simp
  also have "\<dots> = 2 powr 23 * 2 powr of_int (e - 23)" by (rule powr_add)
  finally show ?thesis by simp
qed

lemma round_f32_upper_pos:
  assumes "0 < x"
  shows "round_f32 x \<le> 2 powr (of_int (exponent_f32 x) + 1)"
proof -
  have "x < of_int (2 ^ 24) * ulp_f32 x"
    using exponent_f32_upper [of x] assms unfolding ulp_f32_def ulp_scale by simp
  then have "x / ulp_f32 x \<le> of_int (2 ^ 24)"
    by (simp add: pos_divide_le_eq)
  then have "round_even (x / ulp_f32 x) \<le> 2 ^ 24" by (rule round_even_le)
  then have "of_int (round_even (x / ulp_f32 x)) * ulp_f32 x \<le> of_int (2 ^ 24) * ulp_f32 x"
    by (intro mult_right_mono) (simp_all add: less_imp_le)
  then show ?thesis
    unfolding round_f32_def ulp_scale ulp_f32_def .
qed

lemma round_f32_lower_pos:
  assumes "0 < x" "- 126 < exponent_f32 x"
  shows "2 powr of_int (exponent_f32 x) \<le> round_f32 x"
proof -
  have "of_int (2 ^ 23) * ulp_f32 x \<le> x"
    using exponent_f32_lower [of x] assms unfolding ulp_f32_def ulp_scale' [symmetric] by simp
  then have "of_int (2 ^ 23) \<le> x / ulp_f32 x"
    by (simp add: pos_le_divide_eq)
  then have "2 ^ 23 \<le> round_even (x / ulp_f32 x)" by (rule round_even_ge)
  then have "of_int (2 ^ 23) * ulp_f32 x \<le> of_int (round_even (x / ulp_f32 x)) * ulp_f32 x"
    by (intro mult_right_mono) (simp_all add: less_imp_le)
  then show ?thesis
    unfolding round_f32_def ulp_f32_def ulp_scale' [symmetric] .
qed



lemma round_even_numeral [simp]:
  "round_even (numeral n) = numeral n" "round_even (- numeral n) = - numeral n"
  using round_even_of_int [of "numeral n"] round_even_of_int [of "- numeral n"] by simp_all

lemma round_f32_idem_pos:
  assumes "0 < x"
  shows "round_f32 (round_f32 x) = round_f32 x"
proof -
  let ?e = "exponent_f32 x" and ?r = "round_f32 x"
  let ?k = "round_even (x / ulp_f32 x)"
  have r: "?r = of_int ?k * 2 powr of_int (?e - 23)"
    by (simp add: round_f32_def ulp_f32_def)
  have up: "?r \<le> 2 powr (of_int ?e + 1)" using assms by (rule round_f32_upper_pos)
  have nonneg: "0 \<le> ?r" using assms by (intro round_f32_nonneg) simp
  consider "?r = 0" | "0 < ?r" "?r < 2 powr (of_int ?e + 1)" | "?r = 2 powr (of_int ?e + 1)"
    using up nonneg by linarith
  then show ?thesis
  proof cases
    case 1
    then show ?thesis by simp
  next
    case 2
    have "exponent_f32 ?r = ?e"
    proof (cases "- 126 < ?e")
      case True
      then have "2 powr of_int ?e \<le> ?r" using assms by (intro round_f32_lower_pos)
      then show ?thesis
        using 2 True by (intro exponent_f32_normal) simp_all
    next
      case False
      then have e: "?e = - 126" using exponent_f32_ge [of x] by linarith
      then have "\<bar>?r\<bar> < 2 powr (- 125)" using 2 by simp
      then show ?thesis using 2(1) e by (simp add: exponent_f32_subnormal)
    qed
    then have "ulp_f32 ?r = 2 powr of_int (?e - 23)" by (simp add: ulp_f32_def)
    moreover have "?r / 2 powr of_int (?e - 23) = of_int ?k"
      unfolding r by simp
    ultimately have "round_f32 ?r = of_int ?k * 2 powr of_int (?e - 23)"
      unfolding round_f32_def [of ?r] by simp
    then show ?thesis using r by simp
  next
    case 3
    have "exponent_f32 ?r = ?e + 1"
    proof (rule exponent_f32_normal)
      show "- 126 \<le> ?e + 1" using exponent_f32_ge [of x] by linarith
      show "2 powr of_int (?e + 1) \<le> \<bar>?r\<bar>" using 3 by simp
      have "(2::real) powr (of_int ?e + 1) < 2 powr (of_int (?e + 1) + 1)"
        by (intro powr_less_mono) simp_all
      then show "\<bar>?r\<bar> < 2 powr (of_int (?e + 1) + 1)" using 3 by simp
    qed
    then have u: "ulp_f32 ?r = 2 powr of_int (?e + 1 - 23)" by (simp add: ulp_f32_def)
    have "?r = of_int (2 ^ 23) * 2 powr of_int (?e + 1 - 23)"
      using 3 ulp_scale' [of "?e + 1"] by simp
    then have "round_f32 ?r = ?r"
      unfolding round_f32_def [of ?r] u by simp
    then show ?thesis .
  qed
qed

lemma round_f32_idem [simp]: "round_f32 (round_f32 x) = round_f32 x"
proof -
  consider "0 < x" | "x = 0" | "x < 0" by linarith
  then show ?thesis
  proof cases
    case 1
    then show ?thesis by (rule round_f32_idem_pos)
  next
    case 2
    then show ?thesis by simp
  next
    case 3
    then have "round_f32 (round_f32 (- x)) = round_f32 (- x)"
      by (intro round_f32_idem_pos) simp
    then show ?thesis by (simp add: round_f32_minus)
  qed
qed

lemma round_f32_eval_ge1:
  assumes "2 ^ n \<le> \<bar>x\<bar>" "\<bar>x\<bar> < 2 * 2 ^ n"
  shows "round_f32 x = of_int (round_even (x * 2 ^ 23 / 2 ^ n)) * 2 ^ n / 2 ^ 23"
proof -
  have "exponent_f32 x = int n"
    using assms by (intro exponent_f32_normal) (simp_all add: powr_realpow powr_add)
  then have "ulp_f32 x = 2 powr (real n - 23)" by (simp add: ulp_f32_def)
  also have "\<dots> = 2 ^ n / 2 ^ 23" by (simp add: powr_diff powr_realpow)
  finally have u: "ulp_f32 x = 2 ^ n / 2 ^ 23" .
  show ?thesis unfolding round_f32_def u by simp
qed

lemma round_f32_eval_lt1:
  assumes "n \<le> 126" "1 \<le> \<bar>x\<bar> * 2 ^ n" "\<bar>x\<bar> * 2 ^ n < 2"
  shows "round_f32 x = of_int (round_even (x * (2 ^ 23 * 2 ^ n))) / (2 ^ 23 * 2 ^ n)"
proof -
  have p: "(2::real) powr (- real n) = 1 / 2 ^ n"
    by (simp add: powr_minus powr_realpow inverse_eq_divide)
  have p2: "(2::real) powr (1 - real n) = 2 / 2 ^ n"
    by (simp add: powr_diff powr_realpow)
  have "exponent_f32 x = - int n"
    using assms by (intro exponent_f32_normal) (simp_all add: p p2 field_simps)
  then have "ulp_f32 x = 2 powr (- real n - 23)" by (simp add: ulp_f32_def)
  also have "\<dots> = 1 / (2 ^ 23 * 2 ^ n)"
    by (simp add: powr_diff p)
  finally have u: "ulp_f32 x = 1 / (2 ^ 23 * 2 ^ n)" .
  show ?thesis unfolding round_f32_def u by simp
qed

lemma round_f32_1 [simp]: "round_f32 1 = 1"
  using round_f32_eval_ge1 [of 0 1] by simp

lemma round_f32_2 [simp]: "round_f32 2 = 2"
  using round_f32_eval_ge1 [of 1 2] by simp

lemma round_f32_255 [simp]: "round_f32 255 = 255"
  using round_f32_eval_ge1 [of 7 255] by simp

lemma round_f32_half [simp]: "round_f32 (1 / 2) = 1 / 2"
  using round_f32_eval_lt1 [of 1 "1 / 2"] by simp


section \<open>Fractional Brownian motion over the reals\<close>








section \<open>Heightmap synthesis\<close>






















section \<open>Normal map\<close>









section \<open>Bloom blur\<close>

lemma blur_loop_Suc_right: "blur_loop (Suc n) s = blur_iteration (blur_loop n s)"
  by (induction n arbitrary: s) simp_all

lemma horizontal_blur_loop: "horizontal (blur_loop n s) = (horizontal s = even n)"
  by (induction n arbitrary: s) (auto simp: blur_iteration_def)

lemma passes_blur_loop: "\<exists>ps. passes (blur_loop n s) = passes s @ ps"
proof (induction n arbitrary: s)
  case 0
  then show ?case by simp
next
  case (Suc n)
  obtain ps where "passes (blur_loop n (blur_iteration s)) = passes (blur_iteration s) @ ps"
    using Suc by blast
  then show ?case by (simp add: blur_iteration_def)
qed

lemma first_pass_bloom_blur:
  assumes "1 \<le> n"
  shows "hd (passes (bloom_blur n)) = \<lparr>written = pingpongFBO 1, sampled = downSampledTex\<rparr>"
proof -
  obtain k where n: "n = Suc k" using assms by (cases n) auto
  obtain ps where "passes (blur_loop k (blur_iteration blur_init))
      = passes (blur_iteration blur_init) @ ps"
    using passes_blur_loop by blast
  then show ?thesis
    by (simp add: n bloom_blur_def blur_iteration_def blur_init_def index_of_bool_def)
qed

lemma last_pass_bloom_blur:
  assumes "1 \<le> n"
  shows "written (last (passes (bloom_blur n))) = pingpongFBO (if even n then 0 else 1)"
proof -
  obtain k where n: "n = Suc k" using assms by (cases n) auto
  have "written (last (passes (bloom_blur n)))
          = pingpongFBO (index_of_bool (horizontal (blur_loop k blur_init)))"
    unfolding bloom_blur_def n blur_loop_Suc_right by (simp add: blur_iteration_def)
  then show ?thesis
    by (simp add: horizontal_blur_loop n blur_init_def index_of_bool_def)
qed

lemma composite_bloom_input_parity:
  "composite_bloom_input n = pingpongColorbuffers (if even n then 0 else 1)"
  by (simp add: composite_bloom_input_def bloom_blur_def horizontal_blur_loop blur_init_def
      index_of_bool_def)

text \<open>
  Claim C9, as amended. For any two blur iteration counts of at least 1, the first
  iteration reads the downsampled bright-pass texture in both runs, and in each run the
  texture bound as the bloom input of the composite pass is the one attached to the
  framebuffer that the last iteration wrote: \<open>pingpongColorbuffers[0]\<close> after an even count,
  \<open>pingpongColorbuffers[1]\<close> after an odd one. The two runs bind the same texture there
  exactly when the counts have the same parity.
\<close>

theorem bloom_blur_boundaries:
  assumes "1 \<le> n" "1 \<le> m"
  shows "sampled (hd (passes (bloom_blur n))) = downSampledTex
       \<and> sampled (hd (passes (bloom_blur m))) = downSampledTex
       \<and> composite_bloom_input n = attached_texture (written (last (passes (bloom_blur n))))
       \<and> composite_bloom_input m = attached_texture (written (last (passes (bloom_blur m))))
       \<and> composite_bloom_input n = pingpongColorbuffers (if even n then 0 else 1)
       \<and> (composite_bloom_input n = composite_bloom_input m \<longleftrightarrow> (even n \<longleftrightarrow> even m))"
  using first_pass_bloom_blur [OF assms(1)] first_pass_bloom_blur [OF assms(2)]
    last_pass_bloom_blur [OF assms(1)] last_pass_bloom_blur [OF assms(2)]
  by (simp add: composite_bloom_input_parity attached_texture_def)

text \<open>An instance: the program's count, 100, against 98.\<close>

theorem bloom_blur_boundaries_witness:
  "(1::nat) \<le> gaussianBlurIntensity \<and> (1::nat) \<le> 98
   \<and> sampled (hd (passes (bloom_blur gaussianBlurIntensity))) = downSampledTex
   \<and> composite_bloom_input gaussianBlurIntensity = pingpongColorbuffers 0
   \<and> composite_bloom_input gaussianBlurIntensity = composite_bloom_input 98"
  using bloom_blur_boundaries [of gaussianBlurIntensity 98]
  by (auto simp: gaussianBlurIntensity_def)

text \<open>
  With counts 1 and 2 the composite pass is given different textures: after one iteration
  \<open>horizontal\<close> is false and \<open>pingpongColorbuffers[!horizontal]\<close> is index 1; after two it
  is index 0.
\<close>

theorem bloom_input_counterexample:
  "(1::nat) \<le> 1 \<and> (1::nat) \<le> 2
   \<and> composite_bloom_input 1 = pingpongColorbuffers 1
   \<and> composite_bloom_input 2 = pingpongColorbuffers 0
   \<and> composite_bloom_input 1 \<noteq> composite_bloom_input 2"
  by (simp add: composite_bloom_input_def bloom_blur_def blur_iteration_def blur_init_def
      index_of_bool_def numeral_2_eq_2)

section \<open>The sun\<close>

subsection \<open>Numerical bounds\<close>

lemma pi_ge_3: "3 \<le> pi"
  using sin_x_le_x [of "pi / 6"] sin_30 by simp

lemma sin_partial_sum_5: "(\<Sum>m<5. sin_coeff m * x ^ m) = x - x ^ 3 / 6"
proof -
  have "{..<5::nat} = {0, 1, 2, 3, 4}" by auto
  then show ?thesis
    by (simp add: sin_coeff_def fact_numeral)
qed

lemma sin_partial_sum_11:
  "(\<Sum>m<11. sin_coeff m * x ^ m) = x - x ^ 3 / 6 + x ^ 5 / 120 - x ^ 7 / 5040 + x ^ 9 / 362880"
proof -
  have "{..<11::nat} = {0, 1, 2, 3, 4, 5, 6, 7, 8, 9, 10}" by (auto, arith)
  then show ?thesis
    by (simp add: sin_coeff_def fact_numeral)
qed

lemma sin_lower_16: "99957 / 100000 \<le> sin (16 / 10 :: real)"
proof -
  let ?x = "16 / 10 :: real"
  have "\<bar>sin ?x - (\<Sum>m<11. sin_coeff m * ?x ^ m)\<bar> \<le> inverse (fact 11) * \<bar>?x\<bar> ^ 11"
    by (rule Maclaurin_sin_bound)
  then have "(?x - ?x ^ 3 / 6 + ?x ^ 5 / 120 - ?x ^ 7 / 5040 + ?x ^ 9 / 362880)
               - inverse (fact 11) * \<bar>?x\<bar> ^ 11 \<le> sin ?x"
    unfolding sin_partial_sum_11 by linarith
  moreover have "99957 / 100000 \<le> (?x - ?x ^ 3 / 6 + ?x ^ 5 / 120 - ?x ^ 7 / 5040 + ?x ^ 9 / 362880)
               - inverse (fact 11) * \<bar>?x\<bar> ^ 11"
    by (simp add: fact_numeral power_divide)
  ultimately show ?thesis by linarith
qed

lemma cos_upper_32: "cos (16 / 5 :: real) \<le> - 998 / 1000"
proof -
  let ?x = "16 / 10 :: real"
  have "(99957 / 100000)\<^sup>2 \<le> (sin ?x)\<^sup>2"
    using sin_lower_16 by (intro power_mono) simp_all
  moreover have "cos (16 / 5 :: real) = 1 - 2 * (sin ?x)\<^sup>2"
    using cos_double_sin [of ?x] by simp
  ultimately show ?thesis by (simp add: power2_eq_square)
qed

lemma cos_upper_12: "cos (1 / 12 :: real) \<le> 9966 / 10000"
proof -
  let ?x = "1 / 24 :: real"
  have "\<bar>sin ?x - (\<Sum>m<5. sin_coeff m * ?x ^ m)\<bar> \<le> inverse (fact 5) * \<bar>?x\<bar> ^ 5"
    by (rule Maclaurin_sin_bound)
  then have "(?x - ?x ^ 3 / 6) - inverse (fact 5) * \<bar>?x\<bar> ^ 5 \<le> sin ?x"
    unfolding sin_partial_sum_5 by linarith
  moreover have "416 / 10000 \<le> (?x - ?x ^ 3 / 6) - inverse (fact 5) * \<bar>?x\<bar> ^ 5"
    by (simp add: fact_numeral power_divide)
  ultimately have s: "416 / 10000 \<le> sin ?x" by linarith
  have "(416 / 10000)\<^sup>2 \<le> (sin ?x)\<^sup>2"
    using s by (intro power_mono) simp_all
  moreover have "cos (1 / 12 :: real) = 1 - 2 * (sin ?x)\<^sup>2"
    using cos_double_sin [of ?x] by simp
  ultimately show ?thesis by (simp add: power2_eq_square)
qed

lemma angle_below_5:
  assumes "- 1 \<le> d" "d \<le> 1" "9966 / 10000 < d"
  shows "degrees (arccos d) < 5"
proof -
  have "cos (pi / 36) \<le> cos (1 / 12)"
    using pi_ge_3 by (intro cos_monotone_0_pi_le) simp_all
  then have "cos (pi / 36) < d" using cos_upper_12 assms(3) by linarith
  moreover have "\<bar>d\<bar> \<le> 1" "\<bar>cos (pi / 36)\<bar> \<le> 1" using assms(1,2) by (simp_all add: abs_le_iff)
  ultimately have "arccos d < arccos (cos (pi / 36))"
    by (simp add: arccos_less_mono)
  then have "arccos d < pi / 36"
    by (simp add: arccos_cos)
  then show ?thesis
    by (simp add: degrees_def field_simps)
qed

lemma EaseInOutSine_nonneg: "0 \<le> EaseInOutSine x"
proof -
  have "cos (pi * x) \<le> 1" by simp
  then show ?thesis by (simp add: EaseInOutSine_def)
qed

lemma EaseInOutSine_small:
  assumes "\<bar>dt\<bar> \<le> 1 / 6"
  shows "EaseInOutSine dt * 10 \<le> 1"
proof -
  have "cos (pi / 6) \<le> cos (pi * \<bar>dt\<bar>)"
    using assms by (intro cos_monotone_0_pi_le) (simp_all add: field_simps)
  moreover have "(8 / 5 :: real) \<le> sqrt 3"
    by (rule real_le_rsqrt) (simp add: power2_eq_square)
  moreover have "cos (pi * \<bar>dt\<bar>) = cos (pi * dt)"
    by (cases "0 \<le> dt") simp_all
  ultimately have "8 / 10 \<le> cos (pi * dt)" by (simp add: cos_30)
  then show ?thesis by (simp add: EaseInOutSine_def)
qed

lemma EaseInOutSine_8: "EaseInOutSine 8 = 0"
  by (simp add: EaseInOutSine_def)

lemma EaseInOutSine_1: "EaseInOutSine 1 = 1"
  by (simp add: EaseInOutSine_def)

subsection \<open>The orbit\<close>

lemma orbit_dot:
  fixes c s :: real
  assumes "c\<^sup>2 + s\<^sup>2 = 1"
  shows "dot (mk_vec3 (sunRadius * - c) (sunRadius * s) (sunRadius * - c))
             (mk_vec3 (sunRadius * - c) (sunRadius * s) (sunRadius * - c))
         = sunRadius\<^sup>2 * (1 + c\<^sup>2)"
proof -
  let ?p = "mk_vec3 (sunRadius * - c) (sunRadius * s) (sunRadius * - c)"
  have "dot ?p ?p = sunRadius\<^sup>2 * (c\<^sup>2 + (c\<^sup>2 + s\<^sup>2))"
    by (simp add: dot_def mk_vec3_def power2_eq_square algebra_simps)
  then show ?thesis using assms by simp
qed

lemma orbit_length:
  "vlength (mk_vec3 (sunRadius * - cos v) (sunRadius * sin v) (sunRadius * - cos v))
     = sunRadius * sqrt (1 + (cos v)\<^sup>2)"
  using orbit_dot [of "cos v" "sin v"]
  by (simp add: vlength_def real_sqrt_mult sunRadius_def)

lemma orbit_direction:
  fixes c s :: real
  assumes "c\<^sup>2 + s\<^sup>2 = 1"
  shows "dot (normalize (mk_vec3 (sunRadius * - c) (sunRadius * s) (sunRadius * - c)))
             (normalize (mk_vec3 1 0 1))
         = - (2 * c) / (sqrt (1 + c\<^sup>2) * sqrt 2)"
proof -
  let ?p = "mk_vec3 (sunRadius * - c) (sunRadius * s) (sunRadius * - c)"
  have len: "sqrt (dot ?p ?p) = sunRadius * sqrt (1 + c\<^sup>2)"
    unfolding orbit_dot [OF assms] by (simp add: real_sqrt_mult sunRadius_def)
  have ref: "dot (mk_vec3 1 0 1) (mk_vec3 1 0 1) = 2"
    by (simp add: dot_def mk_vec3_def)
  have "0 < 1 + c\<^sup>2" by (simp add: add_pos_nonneg)
  then have "sqrt (1 + c\<^sup>2) \<noteq> 0" by simp
  then show ?thesis
    unfolding normalize_def len ref
    by (simp add: dot_def vscale_def mk_vec3_def sunRadius_def field_simps)
qed

lemma orbit_direction_bounds:
  fixes c :: real
  assumes "- 1 \<le> c" "c \<le> 0"
  shows "- c \<le> - (2 * c) / (sqrt (1 + c\<^sup>2) * sqrt 2)"
    and "- (2 * c) / (sqrt (1 + c\<^sup>2) * sqrt 2) \<le> 1"
proof -
  let ?r = "sqrt (1 + c\<^sup>2) * sqrt 2"
  have c2: "c\<^sup>2 \<le> 1" using assms by (simp add: abs_square_le_1 abs_le_iff)
  have r: "?r = sqrt (2 + 2 * c\<^sup>2)"
    by (simp add: real_sqrt_mult [symmetric] algebra_simps)
  have pos: "0 < ?r" unfolding r by (simp add: add_pos_nonneg)
  have "?r \<le> 2" unfolding r using c2 by (intro real_le_lsqrt) simp_all
  then have "- c * ?r \<le> - c * 2" using assms(2) by (intro mult_left_mono) simp_all
  then have "- c * ?r \<le> - (2 * c)" by simp
  moreover have "(- c \<le> - (2 * c) / ?r) = (- c * ?r \<le> - (2 * c))"
    using pos by (rule pos_le_divide_eq)
  ultimately show "- c \<le> - (2 * c) / ?r" by blast
  have "(- (2 * c))\<^sup>2 \<le> 2 + 2 * c\<^sup>2" using c2 by (simp add: power_mult_distrib)
  then have "- (2 * c) \<le> ?r" unfolding r by (rule real_le_rsqrt)
  then have "- (2 * c) \<le> 1 * ?r" by simp
  moreover have "(- (2 * c) / ?r \<le> 1) = (- (2 * c) \<le> 1 * ?r)"
    using pos by (rule pos_divide_le_eq)
  ultimately show "- (2 * c) / ?r \<le> 1" by blast
qed

lemma moving_distance:
  assumes "\<not> bWaiting s"
  shows "dot (lightPos (AnimateSun False dt s)) (lightPos (AnimateSun False dt s))
         = sunRadius\<^sup>2 * (1 + (cos (sunVel (AnimateSun False dt s)))\<^sup>2)"
proof -
  let ?v = "sunVel (AnimateSun False dt s)"
  have "lightPos (AnimateSun False dt s)
          = mk_vec3 (sunRadius * - cos ?v) (sunRadius * sin ?v) (sunRadius * - cos ?v)"
    using assms by (simp add: AnimateSun_def horizon_check_def sun_moving_def Let_def)
  then show ?thesis
    using orbit_dot [of "cos ?v" "sin ?v"] by simp
qed

subsection \<open>The first frames of a run\<close>

lemma angle_initial: "angle_to_reference (mk_vec3 0 (1 / 10) 0) = 90"
proof -
  have "dot (normalize (mk_vec3 0 (1 / 10) 0)) (normalize (mk_vec3 1 0 1)) = 0"
    by (simp add: normalize_def vscale_def dot_def mk_vec3_def)
  then show ?thesis
    by (simp add: angle_to_reference_def degrees_def)
qed

lemma first_frame_no_ease:
  assumes "EaseInOutSine dt = 0"
  shows "AnimateSun False dt sun_init =
     \<lparr>lightPos = mk_vec3 (sunRadius * - cos (dt * (4 / 10))) (sunRadius * sin (dt * (4 / 10)))
                         (sunRadius * - cos (dt * (4 / 10))),
      lightDiffuse = WHITE, exposure = maxExposure, sunAngle = 90, sunVel = dt * (4 / 10),
      timer = 0, bReverseSun = False, bWaiting = False\<rparr>"
  by (simp add: AnimateSun_def sun_init_def sun_moving_def horizon_check_def Let_def
      angle_initial [unfolded mk_vec3_def] assms mix_def mix3_def sunDesiredSpeed_def
      mk_vec3_def)

lemma first_frame_8:
  "AnimateSun False 8 sun_init =
     \<lparr>lightPos = mk_vec3 (sunRadius * - cos (16 / 5)) (sunRadius * sin (16 / 5))
                         (sunRadius * - cos (16 / 5)),
      lightDiffuse = WHITE, exposure = maxExposure, sunAngle = 90, sunVel = 16 / 5,
      timer = 0, bReverseSun = False, bWaiting = False\<rparr>"
  using first_frame_no_ease [OF EaseInOutSine_8] by simp

lemma first_frame_8_angle: "angle_to_reference (lightPos (AnimateSun False 8 sun_init)) < 5"
proof -
  let ?c = "cos (16 / 5 :: real)" and ?s = "sin (16 / 5 :: real)"
  let ?d = "- (2 * ?c) / (sqrt (1 + ?c\<^sup>2) * sqrt 2)"
  have c: "- 1 \<le> ?c" "?c \<le> 0" using cos_upper_32 by simp_all
  have "9966 / 10000 < - ?c" using cos_upper_32 by simp
  then have d: "9966 / 10000 < ?d" "?d \<le> 1" "- 1 \<le> ?d"
    using orbit_direction_bounds [OF c] by linarith+
  have "angle_to_reference (lightPos (AnimateSun False 8 sun_init)) = degrees (arccos ?d)"
    unfolding first_frame_8 angle_to_reference_def
    using orbit_direction [of ?c ?s] by simp
  then show ?thesis using angle_below_5 [OF d(3) d(2) d(1)] by simp
qed

subsection \<open>The plane of the orbit\<close>

lemma AnimateSun_plane:
  assumes "vx (lightPos s) = vz (lightPos s)"
  shows "vx (lightPos (AnimateSun b dt s)) = vz (lightPos (AnimateSun b dt s))"
  using assms
  by (simp add: AnimateSun_def horizon_check_def sun_waiting_def sun_moving_def Let_def
      mk_vec3_def)

lemma orbit_not_circle:
  "vlength (lightPos (run_frames False [2] sun_init))
     < vlength (lightPos (run_frames False [0] sun_init))"
proof -
  have e: "EaseInOutSine 2 = 0" "EaseInOutSine 0 = 0"
    by (simp_all add: EaseInOutSine_def)
  have s2: "lightPos (run_frames False [2] sun_init)
      = mk_vec3 (sunRadius * - cos (4 / 5)) (sunRadius * sin (4 / 5)) (sunRadius * - cos (4 / 5))"
    by (simp add: run_frames_def first_frame_no_ease e)
  have s0: "lightPos (run_frames False [0] sun_init)
      = mk_vec3 (sunRadius * - cos 0) (sunRadius * sin 0) (sunRadius * - cos 0)"
    by (simp add: run_frames_def first_frame_no_ease e)
  have "0 < sin (4 / 5 :: real)"
    using pi_ge_3 by (intro sin_gt_zero) simp_all
  then have "0 < (sin (4 / 5 :: real))\<^sup>2" by simp
  then have "(cos (4 / 5 :: real))\<^sup>2 < 1"
    using sin_cos_squared_add [of "4 / 5 :: real"] by linarith
  then have "sqrt (1 + (cos (4 / 5 :: real))\<^sup>2) < sqrt (1 + 1)"
    by simp
  then have "sunRadius * sqrt (1 + (cos (4 / 5 :: real))\<^sup>2) < sunRadius * sqrt (1 + (cos 0)\<^sup>2)"
    by (simp add: sunRadius_def)
  then show ?thesis
    unfolding s2 s0 orbit_length .
qed

text \<open>
  Claim C10. Starting from the initial light position, after every sequence of
  \<open>AnimateSun\<close> updates, whether the sun is configured stationary or is moving or waiting,
  the light position has \<open>lightPos.x = lightPos.z\<close>: the sun stays in the diagonal vertical
  plane \<open>x = z\<close>. Its distance from the origin is not constant along the path: after a
  first frame of 2 seconds it is smaller than after a first frame of 0 seconds.
\<close>

theorem lightPos_diagonal_plane:
  "vx (lightPos (run_frames bIsSunStationary deltaTimes sun_init))
     = vz (lightPos (run_frames bIsSunStationary deltaTimes sun_init))
   \<and> vlength (lightPos (run_frames False [2] sun_init))
       < vlength (lightPos (run_frames False [0] sun_init))"
proof -
  have "vx (lightPos s) = vz (lightPos s) \<Longrightarrow>
        vx (lightPos (fold (AnimateSun bIsSunStationary) deltaTimes s))
          = vz (lightPos (fold (AnimateSun bIsSunStationary) deltaTimes s))" for s
    by (induction deltaTimes arbitrary: s) (simp_all add: AnimateSun_plane)
  then have "vx (lightPos (run_frames bIsSunStationary deltaTimes sun_init))
     = vz (lightPos (run_frames bIsSunStationary deltaTimes sun_init))"
    by (simp add: run_frames_def sun_init_def mk_vec3_def)
  then show ?thesis using orbit_not_circle by simp
qed

subsection \<open>Horizon detection and waiting\<close>

lemma horizon_step:
  assumes "\<not> bWaiting s"
    and "(angle_to_reference (lightPos s) < 5 \<and> \<not> bReverseSun s)
         \<or> (angle_to_reference (lightPos s) > 175 \<and> bReverseSun s)"
  shows "bWaiting (AnimateSun False deltaTime s)"
    and "bReverseSun (AnimateSun False deltaTime s) = (\<not> bReverseSun s)"
    and "sunAngle (AnimateSun False deltaTime s) = angle_to_reference (lightPos s)"
    and "timer (AnimateSun False deltaTime s) = timer s"
  using assms
  by (auto simp: AnimateSun_def horizon_check_def sun_moving_def Let_def)

text \<open>
  Claim C4. Whenever an update runs in the Moving phase with the light at an angle below 5
  degrees (the angle the update computes from the light position it is given) while the
  direction flag \<open>bReverseSun\<close> is false, or at an angle above 175 degrees while the flag
  is true, that same update sets the phase to Waiting and flips the flag.
\<close>

theorem horizon_detection:
  assumes "\<not> bWaiting s"
    and "(angle_to_reference (lightPos s) < 5 \<and> \<not> bReverseSun s)
         \<or> (angle_to_reference (lightPos s) > 175 \<and> bReverseSun s)"
  shows "bWaiting (AnimateSun False deltaTime s)
       \<and> bReverseSun (AnimateSun False deltaTime s) = (\<not> bReverseSun s)"
  using horizon_step [OF assms] by simp

text \<open>
  An instance: after a first frame of 8 seconds the sun is at angular position 3.2, about
  2.4 degrees from the reference direction, moving; the next update, of 1/60 second, puts
  it in the Waiting phase and sets \<open>bReverseSun\<close>.
\<close>

theorem horizon_detection_witness:
  "\<not> bWaiting (AnimateSun False 8 sun_init)
   \<and> angle_to_reference (lightPos (AnimateSun False 8 sun_init)) < 5
   \<and> \<not> bReverseSun (AnimateSun False 8 sun_init)
   \<and> bWaiting (AnimateSun False (1 / 60) (AnimateSun False 8 sun_init))
   \<and> bReverseSun (AnimateSun False (1 / 60) (AnimateSun False 8 sun_init))"
proof -
  have w: "\<not> bWaiting (AnimateSun False 8 sun_init)" "\<not> bReverseSun (AnimateSun False 8 sun_init)"
    by (simp_all add: first_frame_8)
  show ?thesis
    using horizon_detection [of "AnimateSun False 8 sun_init" "1 / 60"] w first_frame_8_angle
    by simp
qed

lemma waiting_inv_step: "waiting_inv s \<Longrightarrow> waiting_inv (AnimateSun b dt s)"
  by (auto simp: waiting_inv_def AnimateSun_def horizon_check_def sun_waiting_def
      sun_moving_def Let_def)

lemma reachable_waiting_inv: "reachable b s \<Longrightarrow> waiting_inv s"
  by (induction rule: reachable.induct)
    (simp_all add: waiting_inv_step, simp add: waiting_inv_def sun_init_def)

lemma waiting_step:
  assumes "waiting_inv s" "bWaiting s"
  shows "AnimateSun False dt s =
     (if timer s + dt \<ge> idleTime then s\<lparr>timer := 0, bWaiting := False\<rparr>
      else s\<lparr>timer := timer s + dt\<rparr>)"
  using assms
  by (auto simp: waiting_inv_def AnimateSun_def horizon_check_def sun_waiting_def Let_def)

text \<open>
  Claim C5. In every state that the controller reaches from its initial state and in which
  the phase is Waiting, the direction flag is already the flipped one (the stored angle is
  below 5 with \<open>bReverseSun\<close> set, or above 175 with it clear). An update on which the
  accumulated time reaches \<open>idleTime\<close> returns the phase to Moving, resets the timer to zero
  and leaves the flag as it is; an update on which it does not keeps the phase Waiting and
  adds the elapsed time to the timer.
\<close>

theorem waiting_phase:
  assumes "reachable False s" "bWaiting s"
  shows "(sunAngle s < 5 \<and> bReverseSun s \<or> sunAngle s > 175 \<and> \<not> bReverseSun s)
       \<and> (timer s + deltaTime \<ge> idleTime \<longrightarrow>
            \<not> bWaiting (AnimateSun False deltaTime s)
            \<and> timer (AnimateSun False deltaTime s) = 0
            \<and> bReverseSun (AnimateSun False deltaTime s) = bReverseSun s)
       \<and> (timer s + deltaTime < idleTime \<longrightarrow>
            bWaiting (AnimateSun False deltaTime s)
            \<and> timer (AnimateSun False deltaTime s) = timer s + deltaTime
            \<and> bReverseSun (AnimateSun False deltaTime s) = bReverseSun s)"
  using waiting_step [OF reachable_waiting_inv [OF assms(1)] assms(2), of deltaTime]
    reachable_waiting_inv [OF assms(1)] assms(2)
  by (auto simp: waiting_inv_def)

text \<open>
  An instance: the frames of 8 and 1/60 seconds leave the controller waiting with the flag
  set and the timer at zero. A further frame of 1 second ends the wait; a further frame
  of 1/2 second does not.
\<close>

theorem waiting_phase_witness:
  "reachable False (run_frames False [8, 1 / 60] sun_init)
   \<and> bWaiting (run_frames False [8, 1 / 60] sun_init)
   \<and> bReverseSun (run_frames False [8, 1 / 60] sun_init)
   \<and> timer (run_frames False [8, 1 / 60] sun_init) + 1 \<ge> idleTime
   \<and> \<not> bWaiting (run_frames False [8, 1 / 60, 1] sun_init)
   \<and> timer (run_frames False [8, 1 / 60, 1] sun_init) = 0
   \<and> bReverseSun (run_frames False [8, 1 / 60, 1] sun_init)
   \<and> timer (run_frames False [8, 1 / 60] sun_init) + 1 / 2 < idleTime
   \<and> bWaiting (run_frames False [8, 1 / 60, 1 / 2] sun_init)
   \<and> timer (run_frames False [8, 1 / 60, 1 / 2] sun_init) = 1 / 2"
proof -
  let ?s8 = "AnimateSun False 8 sun_init"
  let ?s = "AnimateSun False (1 / 60) ?s8"
  have w8: "\<not> bWaiting ?s8" "\<not> bReverseSun ?s8" "timer ?s8 = 0"
    by (simp_all add: first_frame_8)
  have hyp: "(angle_to_reference (lightPos ?s8) < 5 \<and> \<not> bReverseSun ?s8)
         \<or> (angle_to_reference (lightPos ?s8) > 175 \<and> bReverseSun ?s8)"
    using first_frame_8_angle w8 by simp
  note hs = horizon_step [OF w8(1) hyp, of "1 / 60"]
  have r: "reachable False ?s"
    by (intro reachable_step reachable_init)
  have s: "bWaiting ?s" "bReverseSun ?s" "timer ?s = 0"
    using hs w8 by simp_all
  show ?thesis
    using waiting_phase [OF r s(1), of 1] waiting_phase [OF r s(1), of "1 / 2"] r s
    by (simp add: run_frames_def idleTime_def)
qed

subsection \<open>Exposure\<close>

lemma mix_between:
  assumes "lo \<le> a" "a \<le> hi" "lo \<le> b" "b \<le> hi" "0 \<le> t" "t \<le> 1"
  shows "lo \<le> mix a b t \<and> mix a b t \<le> hi"
proof -
  have "lo * (1 - t) \<le> a * (1 - t)" "a * (1 - t) \<le> hi * (1 - t)"
    using assms by (simp_all add: mult_right_mono)
  moreover have "lo * t \<le> b * t" "b * t \<le> hi * t"
    using assms by (simp_all add: mult_right_mono)
  ultimately have "lo * (1 - t) + lo * t \<le> mix a b t" "mix a b t \<le> hi * (1 - t) + hi * t"
    unfolding mix_def by linarith+
  then show ?thesis by (simp add: algebra_simps)
qed

lemma exposure_step:
  assumes "minExposure \<le> exposure s" "exposure s \<le> maxExposure"
    and "EaseInOutSine dt * 10 \<le> 1"
  shows "minExposure \<le> exposure (AnimateSun b dt s) \<and> exposure (AnimateSun b dt s) \<le> maxExposure"
proof -
  have t: "0 \<le> EaseInOutSine dt * 10" using EaseInOutSine_nonneg [of dt] by simp
  have mm: "minExposure \<le> maxExposure" by (simp add: minExposure_def maxExposure_def)
  note lo = mix_between [OF assms(1,2) order_refl mm t assms(3)]
  note hi = mix_between [OF assms(1,2) mm order_refl t assms(3)]
  show ?thesis
    using lo hi assms(1,2)
    by (simp add: AnimateSun_def horizon_check_def sun_waiting_def sun_moving_def Let_def)
qed

lemma exposure_run:
  assumes "minExposure \<le> exposure s" "exposure s \<le> maxExposure"
    and "\<forall>dt \<in> set dts. EaseInOutSine dt * 10 \<le> 1"
  shows "minExposure \<le> exposure (fold (AnimateSun b) dts s)
       \<and> exposure (fold (AnimateSun b) dts s) \<le> maxExposure"
  using assms
proof (induction dts arbitrary: s)
  case Nil
  then show ?case by simp
next
  case (Cons dt dts)
  have "minExposure \<le> exposure (AnimateSun b dt s)
      \<and> exposure (AnimateSun b dt s) \<le> maxExposure"
    using exposure_step [OF Cons.prems(1,2)] Cons.prems(3) by simp
  then show ?case using Cons.IH Cons.prems(3) by simp
qed

text \<open>
  Claim C3, as amended. Starting from \<open>exposure = maxExposure\<close>, for every sequence of
  updates whose elapsed times keep the blend factor \<open>EaseInOutSine(deltaTime) * 10\<close> that
  is passed to \<open>glm::mix\<close> at most 1, the exposure is within
  \<open>[minExposure, maxExposure]\<close> after each update. (Every elapsed time of at most 1/6
  second keeps the factor at most 1: lemma \<open>EaseInOutSine_small\<close>.)
\<close>

theorem exposure_bounded:
  assumes "\<forall>dt \<in> set deltaTimes. EaseInOutSine dt * 10 \<le> 1"
  shows "\<forall>n \<le> length deltaTimes.
           minExposure \<le> exposure (run_frames bIsSunStationary (take n deltaTimes) sun_init)
         \<and> exposure (run_frames bIsSunStationary (take n deltaTimes) sun_init) \<le> maxExposure"
proof (intro allI impI)
  fix n
  have "\<forall>dt \<in> set (take n deltaTimes). EaseInOutSine dt * 10 \<le> 1"
    using assms by (auto dest: in_set_takeD)
  moreover have "minExposure \<le> exposure sun_init" "exposure sun_init \<le> maxExposure"
    by (simp_all add: sun_init_def minExposure_def maxExposure_def)
  ultimately show "minExposure \<le> exposure (run_frames bIsSunStationary (take n deltaTimes) sun_init)
         \<and> exposure (run_frames bIsSunStationary (take n deltaTimes) sun_init) \<le> maxExposure"
    unfolding run_frames_def by (intro exposure_run)
qed

text \<open>An instance: frames of 1/60, 1/6 and 0 seconds.\<close>

theorem exposure_bounded_witness:
  "EaseInOutSine (1 / 60) * 10 \<le> 1 \<and> EaseInOutSine (1 / 6) * 10 \<le> 1
   \<and> EaseInOutSine 0 * 10 \<le> 1
   \<and> minExposure \<le> exposure (run_frames False [1 / 60, 1 / 6, 0] sun_init)
   \<and> exposure (run_frames False [1 / 60, 1 / 6, 0] sun_init) \<le> maxExposure"
proof -
  have h: "\<forall>dt \<in> set [1 / 60, 1 / 6, 0 :: real]. EaseInOutSine dt * 10 \<le> 1"
    by (simp add: EaseInOutSine_small)
  show ?thesis
    using h exposure_bounded [OF h, of False, rule_format, of 3] by simp
qed

text \<open>
  With unrestricted elapsed times the bound fails. A first frame of 8 seconds moves the sun
  to angular position 3.2, about 2.4 degrees from the reference direction; the next frame,
  of 1 second, takes the branch that dims the scene with blend factor
  \<open>EaseInOutSine 1 * 10 = 10\<close>, and \<open>mix (0.75, 0.05, 10) = -6.25\<close>.
\<close>

lemma exposure_horizon_branch:
  assumes "\<not> bWaiting s" "angle_to_reference (lightPos s) < 899 / 10" "\<not> bReverseSun s"
  shows "exposure (AnimateSun False dt s) = mix (exposure s) minExposure (EaseInOutSine dt * 10)"
  using assms
  by (simp add: AnimateSun_def sun_moving_def horizon_check_def Let_def)

theorem exposure_counterexample:
  "exposure (run_frames False [8, 1] sun_init) = - 25 / 4
   \<and> \<not> (minExposure \<le> exposure (run_frames False [8, 1] sun_init))"
proof -
  let ?s = "AnimateSun False 8 sun_init"
  have a: "angle_to_reference (lightPos ?s) < 899 / 10"
    using first_frame_8_angle by linarith
  have w: "\<not> bWaiting ?s" "\<not> bReverseSun ?s" "exposure ?s = maxExposure"
    by (simp_all add: first_frame_8)
  have "exposure (AnimateSun False 1 ?s) = - 25 / 4"
    unfolding exposure_horizon_branch [OF w(1) a w(2)] w(3)
    by (simp add: EaseInOutSine_1 mix_def minExposure_def maxExposure_def)
  then show ?thesis
    by (simp add: run_frames_def minExposure_def)
qed

subsection \<open>Distance from the origin\<close>

text \<open>
  Claim C8 does not hold of the program. The position update sets both \<open>x\<close> and \<open>z\<close> to
  \<open>-sunRadius * cos sunVel\<close> and \<open>y\<close> to \<open>sunRadius * sin sunVel\<close>, so the squared distance
  from the origin is \<open>sunRadius\<^sup>2 * (1 + cos\<^sup>2 sunVel)\<close> (lemma \<open>moving_distance\<close>). After
  the first update, with an elapsed time of 1/60 second, the light is farther from the
  origin than \<open>sunRadius\<close>.
\<close>

theorem orbit_distance_first_frame:
  "sunRadius < vlength (lightPos (AnimateSun False (1 / 60) sun_init))"
proof -
  let ?s = "AnimateSun False (1 / 60) sun_init"
  let ?e = "EaseInOutSine (1 / 60)"
  have e: "0 \<le> ?e" "?e \<le> 1"
    using EaseInOutSine_nonneg [of "1 / 60"] EaseInOutSine_small [of "1 / 60"] by simp_all
  have v: "sunVel ?s = (1 / 150) * (1 - ?e * 3) + (4 / 10) * (?e * 3)"
    by (simp add: AnimateSun_def sun_init_def sun_moving_def horizon_check_def Let_def
        angle_initial [unfolded mk_vec3_def] mix_def sunDesiredSpeed_def mk_vec3_def)
  have "1 / 150 * (1 - ?e * 3) + 4 / 10 * (?e * 3) = 1 / 150 + ?e * (59 / 50)"
    by (simp add: algebra_simps)
  then have "- (3 / 2) < sunVel ?s" "sunVel ?s < 3 / 2"
    unfolding v using e by linarith+
  then have "- (pi / 2) < sunVel ?s" "sunVel ?s < pi / 2"
    using pi_ge_3 by linarith+
  then have "0 < cos (sunVel ?s)" by (rule cos_gt_zero_pi)
  then have "0 < (cos (sunVel ?s))\<^sup>2" by simp
  then have "sunRadius\<^sup>2 * 1 < sunRadius\<^sup>2 * (1 + (cos (sunVel ?s))\<^sup>2)"
    by (intro mult_strict_left_mono) (simp_all add: sunRadius_def)
  then have "sunRadius\<^sup>2 < dot (lightPos ?s) (lightPos ?s)"
    using moving_distance [of sun_init "1 / 60"] by (simp add: sun_init_def)
  then have "sqrt (sunRadius\<^sup>2) < sqrt (dot (lightPos ?s) (lightPos ?s))"
    by (simp only: real_sqrt_less_iff)
  then show ?thesis
    by (simp add: vlength_def sunRadius_def)
qed

end
